theory Spec2Isabelle
  imports Complex_Main "HOL-Library.Sublist"
begin

section \<open>The coordinator (CEOAgent) and its workers (Agent)\<close>

text \<open>
  A shallow embedding of \<^verbatim>\<open>agents/base/Agent.js\<close>, of
  \<^verbatim>\<open>agents/lil_Boss_CEO/index.js\<close> and of the \<^verbatim>\<open>POST /task\<close> handler of the API
  gateway. Conventions:
  \<^item> JavaScript strings are \<open>string\<close>; \<^verbatim>\<open>toLowerCase\<close> folds the ASCII letters,
    \<^verbatim>\<open>includes\<close> is the contiguous-substring test.
  \<^item> JavaScript numbers are \<open>int\<close> where the code only counts or adds milliseconds, and
    \<open>real\<close> where it divides (the metrics and the health score): doubles are idealised
    as reals.
  \<^item> A \<^verbatim>\<open>Map\<close> is an insertion-ordered list; \<^verbatim>\<open>set\<close> on a present key
    replaces the value in place, on a new key appends.
  \<^item> Objects are mutated in place in the source; here every function returns the new
    state. A worker is identified by its name, the key under which the registry holds it.
  \<^item> The clock, the random suffix of a task id and the behaviour of the completion
    service are inputs.
  \<^item> An \<^verbatim>\<open>async\<close> method is split where it awaits the completion service: a part that
    runs up to the request and a part that runs when the request settles. Between the
    two, other calls may run.
\<close>

subsection \<open>Strings\<close>

definition lower_char :: "char \<Rightarrow> char" where
  "lower_char c =
     (case map_of (zip ''ABCDEFGHIJKLMNOPQRSTUVWXYZ'' ''abcdefghijklmnopqrstuvwxyz'') c of
        Some l \<Rightarrow> l
      | None \<Rightarrow> c)"

definition toLowerCase :: "string \<Rightarrow> string" where
  "toLowerCase s = map lower_char s"

text \<open>\<^verbatim>\<open>hay.includes(needle)\<close>\<close>

definition str_includes :: "string \<Rightarrow> string \<Rightarrow> bool" where
  "str_includes hay needle = sublist needle hay"

text \<open>The decimal rendering of a number inside a template literal.\<close>

function dec :: "int \<Rightarrow> string" where
  "dec n = (if n < 10 then [''0123456789'' ! nat n]
            else dec (n div 10) @ [''0123456789'' ! nat (n mod 10)])"
  by pat_completeness auto
termination
  by (relation "measure nat") auto

definition decimal :: "int \<Rightarrow> string" where
  "decimal i = (if i < 0 then ''-'' @ dec (- i) else dec i)"

subsection \<open>Errors\<close>

text \<open>
  A thrown value (a rejected promise, for an \<^verbatim>\<open>async\<close> method) is \<open>Inl\<close> of the result
  type \<open>js_error + 'a\<close>. The only errors the modelled code raises by itself are
  \<^verbatim>\<open>TypeError\<close>s of the engine; the string is the engine's message.
\<close>

datatype js_error = TypeError string

fun message :: "js_error \<Rightarrow> string" where
  "message (TypeError m) = m"

subsection \<open>Agent.js: the worker\<close>

datatype agent_status = Idle | Busy | Offline

datatype local_status = Processing | Done | Broken

text \<open>
  A \<^verbatim>\<open>Date\<close>: a number of milliseconds, or the invalid date that
  \<^verbatim>\<open>new Date(NaN)\<close> builds.
\<close>

datatype js_date = Date int | InvalidDate

text \<open>The \<^verbatim>\<open>context\<close> argument of \<^verbatim>\<open>processTask\<close>, one constructor per caller.\<close>

datatype task_context =
    Delegated string string js_date
  | Aggregation "string list"
  | TeamReport

text \<open>
  An entry of \<^verbatim>\<open>currentTasks\<close>. The prompt text is opaque to the orchestration logic
  and is not kept.
\<close>

record local_task =
  lt_startTime :: int
  lt_status :: local_status
  lt_context :: task_context
  lt_result :: "string option"
  lt_error :: "string option"
  lt_completionTime :: "int option"

record agent =
  name :: string
  role :: string
  specialKnowledge :: "string list"
  status :: agent_status
  currentTasks :: "(string \<times> local_task) list"

text \<open>\<^verbatim>\<open>Map.prototype.set\<close>, \<^verbatim>\<open>get\<close> is \<open>map_of\<close>, \<^verbatim>\<open>delete\<close>, \<^verbatim>\<open>size\<close> is \<open>length\<close>.\<close>

fun map_set :: "'k \<Rightarrow> 'v \<Rightarrow> ('k \<times> 'v) list \<Rightarrow> ('k \<times> 'v) list" where
  "map_set k v [] = [(k, v)]"
| "map_set k v (p # ps) = (if fst p = k then (k, v) # ps else p # map_set k v ps)"

definition map_delete :: "'k \<Rightarrow> ('k \<times> 'v) list \<Rightarrow> ('k \<times> 'v) list" where
  "map_delete k ps = filter (\<lambda>p. fst p \<noteq> k) ps"

text \<open>
  What the completion service does with one request: it answers with a text; or the
  \<^verbatim>\<open>try\<close> block of \<^verbatim>\<open>processTask\<close> throws an \<^verbatim>\<open>Error\<close> with a message; or it
  throws a value without a \<^verbatim>\<open>message\<close> (\<^verbatim>\<open>undefined\<close>), on which the handler's own
  \<^verbatim>\<open>error.message\<close> throws.
\<close>

datatype service_reply = Text string | Fails string | FailsNullish

record process_result =
  pr_success :: bool
  pr_result :: "string option"
  pr_error :: "string option"
  pr_agent :: string
  pr_taskId :: string

text \<open>\<^verbatim>\<open>processTask\<close> up to \<^verbatim>\<open>await this.claude.messages.create(...)\<close>.\<close>

definition processTask_start :: "agent \<Rightarrow> string \<Rightarrow> task_context \<Rightarrow> int \<Rightarrow> agent" where
  "processTask_start a taskId ctx now =
     a\<lparr>status := Busy,
       currentTasks := map_set taskId
         \<lparr>lt_startTime = now, lt_status = Processing, lt_context = ctx,
          lt_result = None, lt_error = None, lt_completionTime = None\<rparr>
         (currentTasks a)\<rparr>"

text \<open>The engine's messages, without their quotation marks.\<close>

definition no_message :: string where
  "no_message = ''Cannot read properties of undefined (reading message)''"

definition no_task :: string where
  "no_task = ''Cannot set properties of undefined (setting status)''"

text \<open>
  The \<^verbatim>\<open>catch (error)\<close> block of \<^verbatim>\<open>processTask\<close>; \<open>err\<close> is \<open>error.message\<close>, or
  \<open>None\<close> when the thrown value has none. Then \<^verbatim>\<open>task.error = error.message\<close> throws
  after \<^verbatim>\<open>task.status = 'failed'\<close> and before \<^verbatim>\<open>this.status = 'idle'\<close>; without a task
  entry, the \<^verbatim>\<open>return\<close> throws after \<^verbatim>\<open>this.status = 'idle'\<close>.
\<close>

definition processTask_catch ::
  "agent \<Rightarrow> string \<Rightarrow> string option \<Rightarrow> int \<Rightarrow> agent \<times> (js_error + process_result)" where
  "processTask_catch a taskId err now =
     (case err of
        Some m \<Rightarrow>
          (a\<lparr>currentTasks :=
               (case map_of (currentTasks a) taskId of
                  Some task \<Rightarrow> map_set taskId
                    (task\<lparr>lt_status := Broken, lt_error := Some m,
                          lt_completionTime := Some now\<rparr>) (currentTasks a)
                | None \<Rightarrow> currentTasks a),
             status := Idle\<rparr>,
           Inr \<lparr>pr_success = False, pr_result = None, pr_error = Some m,
                pr_agent = name a, pr_taskId = taskId\<rparr>)
      | None \<Rightarrow>
          (case map_of (currentTasks a) taskId of
             Some task \<Rightarrow>
               (a\<lparr>currentTasks := map_set taskId (task\<lparr>lt_status := Broken\<rparr>) (currentTasks a)\<rparr>,
                Inl (TypeError no_message))
           | None \<Rightarrow> (a\<lparr>status := Idle\<rparr>, Inl (TypeError no_message))))"

text \<open>\<^verbatim>\<open>processTask\<close> from the moment the request settles.\<close>

definition processTask_finish ::
  "agent \<Rightarrow> string \<Rightarrow> service_reply \<Rightarrow> int \<Rightarrow> agent \<times> (js_error + process_result)" where
  "processTask_finish a taskId reply now =
     (case reply of
        Text r \<Rightarrow>
          (case map_of (currentTasks a) taskId of
             Some task \<Rightarrow>
               (a\<lparr>currentTasks := map_set taskId
                    (task\<lparr>lt_status := Done, lt_result := Some r,
                          lt_completionTime := Some now\<rparr>) (currentTasks a),
                  status := Idle\<rparr>,
                Inr \<lparr>pr_success = True, pr_result = Some r, pr_error = None,
                     pr_agent = name a, pr_taskId = taskId\<rparr>)
           | None \<Rightarrow> processTask_catch a taskId (Some no_task) now)
      | Fails m \<Rightarrow> processTask_catch a taskId (Some m) now
      | FailsNullish \<Rightarrow> processTask_catch a taskId None now)"

subsection \<open>index.js: the coordinator's state\<close>

datatype task_status = Assigned | Completed | Failed

record task =
  t_id :: string
  t_description :: string
  t_priority :: string
  t_requiredSkills :: "string list"
  t_assignedAgent :: string
  t_assignedAt :: int
  t_status :: task_status
  t_progress :: nat
  t_completedAt :: "int option"
  t_result :: "process_result option"
  t_error :: "string option"

record metrics =
  tasksCompleted :: nat
  tasksAssigned :: nat
  averageCompletionTime :: real
  successRate :: real

text \<open>
  The \<^verbatim>\<open>CEOAgent\<close> object: its own \<^verbatim>\<open>Agent\<close> part (\<open>self\<close>), the registry
  \<^verbatim>\<open>teamAgents\<close> in registration order, the ledger (\<^verbatim>\<open>activeTasks\<close>,
  \<^verbatim>\<open>taskHistory\<close>) and the metrics. \<open>serviceCalls\<close> counts the requests sent to the
  completion service by the coordinator and its workers.
\<close>

record ceo =
  self :: agent
  teamAgents :: "agent list"
  activeTasks :: "(string \<times> task) list"
  taskHistory :: "task list"
  performanceMetrics :: metrics
  serviceCalls :: nat

text \<open>The constructor.\<close>

definition CEOAgent :: ceo where
  "CEOAgent =
     \<lparr>self = \<lparr>name = ''lil_Boss_CEO'', role = ''CEO'',
              specialKnowledge = [''Strategic Planning'', ''Team Coordination'',
                ''Task Delegation'', ''Performance Monitoring'',
                ''Executive Decision Making'', ''Resource Allocation''],
              status = Idle, currentTasks = []\<rparr>,
      teamAgents = [], activeTasks = [], taskHistory = [],
      performanceMetrics = \<lparr>tasksCompleted = 0, tasksAssigned = 0,
        averageCompletionTime = 0, successRate = 0\<rparr>,
      serviceCalls = 0\<rparr>"

text \<open>
  \<^verbatim>\<open>this.teamAgents.set(agent.name, agent)\<close>; the collaborator links are not
  modelled.
\<close>

definition registerTeamAgent :: "ceo \<Rightarrow> agent \<Rightarrow> ceo" where
  "registerTeamAgent s a =
     s\<lparr>teamAgents :=
         (if \<exists>w \<in> set (teamAgents s). name w = name a
          then map (\<lambda>w. if name w = name a then a else w) (teamAgents s)
          else teamAgents s @ [a])\<rparr>"

subsection \<open>selectBestAgent\<close>

text \<open>
  \<^verbatim>\<open>roleScores[role] || 0\<close>. The keys of the table are the role tags of the worker
  classes; a role is taken to be such a tag or another plain tag (\<^verbatim>\<open>'CEO'\<close>), not the
  name of a member that every object inherits.
\<close>

definition calculateRoleScore :: "string \<Rightarrow> string \<Rightarrow> int" where
  "calculateRoleScore r taskDescription =
     (let taskLower = toLowerCase taskDescription;
          roleScores =
            [(''SEO_Specialist'',
                if str_includes taskLower ''seo'' \<or> str_includes taskLower ''search''
                   \<or> str_includes taskLower ''keyword'' then 15 else 0),
             (''Brand_Manager'',
                if str_includes taskLower ''brand'' \<or> str_includes taskLower ''identity''
                   \<or> str_includes taskLower ''image'' then 15 else 0),
             (''Market_Analyst'',
                if str_includes taskLower ''market'' \<or> str_includes taskLower ''analysis''
                   \<or> str_includes taskLower ''trend'' then 15 else 0),
             (''Finance_Analyst'',
                if str_includes taskLower ''finance'' \<or> str_includes taskLower ''budget''
                   \<or> str_includes taskLower ''cost'' then 15 else 0),
             (''Product_Manager'',
                if str_includes taskLower ''product'' \<or> str_includes taskLower ''feature''
                   \<or> str_includes taskLower ''development'' then 15 else 0),
             (''Marketing_Manager'',
                if str_includes taskLower ''marketing'' \<or> str_includes taskLower ''campaign''
                   \<or> str_includes taskLower ''promotion'' then 15 else 0),
             (''Partnership_Manager'',
                if str_includes taskLower ''partnership''
                   \<or> str_includes taskLower ''collaboration''
                   \<or> str_includes taskLower ''alliance'' then 15 else 0)]
      in case map_of roleScores r of Some n \<Rightarrow> n | None \<Rightarrow> (0::int))"

text \<open>
  \<^verbatim>\<open>agent.specialKnowledge.some(knowledge =>
  knowledge.toLowerCase().includes(skill.toLowerCase()))\<close>
\<close>

definition skillMatches :: "agent \<Rightarrow> string \<Rightarrow> bool" where
  "skillMatches a skill =
     list_ex (\<lambda>knowledge. str_includes (toLowerCase knowledge) (toLowerCase skill))
       (specialKnowledge a)"

text \<open>The \<^verbatim>\<open>for (const skill of requiredSkills)\<close> loop, with the running score.\<close>

fun skillLoop :: "agent \<Rightarrow> string list \<Rightarrow> int \<Rightarrow> int" where
  "skillLoop a [] score = score"
| "skillLoop a (skill # rest) score =
     skillLoop a rest (if skillMatches a skill then score + 10 else score)"

definition agentScore :: "agent \<Rightarrow> string list \<Rightarrow> string \<Rightarrow> int" where
  "agentScore a requiredSkills taskDescription =
     skillLoop a requiredSkills 0 + calculateRoleScore (role a) taskDescription"

definition reduce_empty :: string where
  "reduce_empty = ''Reduce of empty array with no initial value''"

text \<open>
  \<^verbatim>\<open>Array.prototype.sort\<close> is a stable sort; with the comparator
  \<^verbatim>\<open>(a, b) => b.score - a.score\<close> it is the stable insertion sort on the negated
  score. \<^verbatim>\<open>reduce\<close> without an initial value throws on an empty array and otherwise
  folds from the first element.
\<close>

definition selectBestAgent :: "ceo \<Rightarrow> string list \<Rightarrow> string \<Rightarrow> js_error + agent option" where
  "selectBestAgent s requiredSkills taskDescription =
     (let availableAgents = filter (\<lambda>a. status a = Idle) (teamAgents s) in
      if length availableAgents = 0 then
        (case teamAgents s of
           [] \<Rightarrow> Inl (TypeError reduce_empty)
         | first # others \<Rightarrow>
             Inr (Some (foldl (\<lambda>leastBusy a.
                          if length (currentTasks a) < length (currentTasks leastBusy)
                          then a else leastBusy) first others)))
      else
        let scoredAgents =
              map (\<lambda>a. (a, agentScore a requiredSkills taskDescription)) availableAgents;
            sorted = sort_key (\<lambda>p. - snd p) scoredAgents
        in Inr (case sorted of
                  p # _ \<Rightarrow> Some (fst p)
                | [] \<Rightarrow> (case availableAgents of a # _ \<Rightarrow> Some a | [] \<Rightarrow> None)))"

subsection \<open>calculateDeadline\<close>

text \<open>
  \<^verbatim>\<open>deadlineHours[priority] || 24\<close> reads a property of an object literal. For the
  three keys it is the number of hours; for a string that names no property it is
  \<^verbatim>\<open>undefined\<close> and the default applies. For the name of a member that every object
  inherits from \<^verbatim>\<open>Object.prototype\<close> it is that member, a function or an object: it is
  truthy, the product with \<^verbatim>\<open>60 * 60 * 1000\<close> is \<^verbatim>\<open>NaN\<close>, and the date is invalid.
  The priority is an argument of the call, so these names are part of the model.
\<close>

definition inherited_members :: "string list" where
  "inherited_members =
     [''constructor'', ''hasOwnProperty'', ''isPrototypeOf'', ''propertyIsEnumerable'',
      ''toLocaleString'', ''toString'', ''valueOf'', ''__proto__'',
      ''__defineGetter__'', ''__defineSetter__'', ''__lookupGetter__'',
      ''__lookupSetter__'']"

definition calculateDeadline :: "int \<Rightarrow> string \<Rightarrow> js_date" where
  "calculateDeadline now priority =
     (let deadlineHours = [(''high'', 2), (''medium'', 24), (''low'', 72)] in
      case map_of deadlineHours priority of
        Some hours \<Rightarrow> Date (now + (if hours = 0 then 24 else hours) * 60 * 60 * 1000)
      | None \<Rightarrow>
          if priority \<in> set inherited_members then InvalidDate
          else Date (now + 24 * 60 * 60 * 1000))"

subsection \<open>assignTask\<close>

text \<open>
  What a call reads from its environment before it awaits: the clock (all the clock
  reads of one synchronous stretch give the same millisecond) and the suffix
  \<^verbatim>\<open>Math.random().toString(36).substr(2, 9)\<close>.
\<close>

record env =
  clock :: int
  random :: string

definition newTaskId :: "env \<Rightarrow> string" where
  "newTaskId e = ''task-'' @ decimal (clock e) @ ''-'' @ random e"

text \<open>The object that \<^verbatim>\<open>assignTask\<close> returns; a property that is not set is \<open>None\<close>.\<close>

record assign_result =
  ar_success :: bool
  ar_taskId :: "string option"
  ar_assignedAgent :: "string option"
  ar_result :: "string option"
  ar_error :: "string option"

text \<open>
  A call suspended at \<^verbatim>\<open>await assignedAgent.processTask(...)\<close>: the \<^verbatim>\<open>task\<close> and
  \<^verbatim>\<open>assignedAgent\<close> of its closure.
\<close>

record pending =
  p_task :: task
  p_agent :: agent

datatype begun = Rejects js_error | Resolves assign_result | Awaits pending

definition update_agent :: "string \<Rightarrow> agent \<Rightarrow> agent list \<Rightarrow> agent list" where
  "update_agent n a ws = map (\<lambda>w. if name w = n then a else w) ws"

definition no_agent :: string where
  "no_agent = ''No suitable agent available''"

text \<open>The rest of \<^verbatim>\<open>assignTask\<close> once \<^verbatim>\<open>selectBestAgent\<close> has returned, up to the await.\<close>

definition assignTask_dispatch ::
  "ceo \<Rightarrow> env \<Rightarrow> string \<Rightarrow> string \<Rightarrow> string list \<Rightarrow> agent option \<Rightarrow> ceo \<times> begun" where
  "assignTask_dispatch s e taskDescription priority requiredSkills selected =
     (let taskId = newTaskId e in
      case selected of
        None \<Rightarrow>
          (s, Resolves \<lparr>ar_success = False, ar_taskId = Some taskId,
                        ar_assignedAgent = None, ar_result = None,
                        ar_error = Some no_agent\<rparr>)
      | Some assignedAgent \<Rightarrow>
          let task = \<lparr>t_id = taskId, t_description = taskDescription,
                      t_priority = priority, t_requiredSkills = requiredSkills,
                      t_assignedAgent = name assignedAgent, t_assignedAt = clock e,
                      t_status = Assigned, t_progress = 0, t_completedAt = None,
                      t_result = None, t_error = None\<rparr>;
              m = performanceMetrics s;
              worker = processTask_start assignedAgent taskId
                         (Delegated priority (name (self s))
                            (calculateDeadline (clock e) priority))
                         (clock e)
          in (s\<lparr>activeTasks := map_set taskId task (activeTasks s),
                performanceMetrics := m\<lparr>tasksAssigned := tasksAssigned m + 1\<rparr>,
                teamAgents := update_agent (name assignedAgent) worker (teamAgents s),
                serviceCalls := serviceCalls s + 1\<rparr>,
              Awaits \<lparr>p_task = task, p_agent = worker\<rparr>))"

text \<open>
  \<^verbatim>\<open>assignTask\<close> up to the await. \<^verbatim>\<open>selectBestAgent\<close> is called outside the
  \<^verbatim>\<open>try\<close> block: what it throws, the call throws.
\<close>

definition assignTask_begin ::
  "ceo \<Rightarrow> env \<Rightarrow> string \<Rightarrow> string \<Rightarrow> string list \<Rightarrow> ceo \<times> begun" where
  "assignTask_begin s e taskDescription priority requiredSkills =
     (case selectBestAgent s requiredSkills taskDescription of
        Inl err \<Rightarrow> (s, Rejects err)
      | Inr selected \<Rightarrow>
          assignTask_dispatch s e taskDescription priority requiredSkills selected)"

text \<open>
  The difference \<^verbatim>\<open>task.completedAt - task.assignedAt\<close>; a task with the status
  \<^verbatim>\<open>'completed'\<close> has both dates, set by the same block.
\<close>

definition elapsed :: "task \<Rightarrow> int" where
  "elapsed t = (case t_completedAt t of Some c \<Rightarrow> c - t_assignedAt t | None \<Rightarrow> 0)"

definition updatePerformanceMetrics :: "ceo \<Rightarrow> ceo" where
  "updatePerformanceMetrics s =
     (let completedTasks = filter (\<lambda>t. t_status t = Completed) (taskHistory s);
          m = (performanceMetrics s)\<lparr>successRate :=
                 (if length (taskHistory s) > 0
                  then real (length completedTasks) / real (length (taskHistory s)) * 100
                  else 0)\<rparr>
      in if length completedTasks > 0
         then
           let totalTime = foldl (\<lambda>sum t. sum + elapsed t) 0 completedTasks in
           s\<lparr>performanceMetrics := m\<lparr>averageCompletionTime :=
                real_of_int totalTime / real (length completedTasks) / (1000 * 60)\<rparr>\<rparr>
         else s\<lparr>performanceMetrics := m\<rparr>)"

text \<open>
  The object the closure calls \<^verbatim>\<open>assignedAgent\<close>, in its present state: the
  registry's entry of that name.
\<close>

definition current :: "ceo \<Rightarrow> agent \<Rightarrow> agent" where
  "current s a = (case find (\<lambda>w. name w = name a) (teamAgents s) of Some w \<Rightarrow> w | None \<Rightarrow> a)"

text \<open>
  \<^verbatim>\<open>assignTask\<close> from the moment the worker's request settles: the rest of the
  worker's \<^verbatim>\<open>processTask\<close>, then the rest of the \<^verbatim>\<open>try\<close> block, or the
  \<^verbatim>\<open>catch\<close> block when \<^verbatim>\<open>processTask\<close> has thrown.
\<close>

definition assignTask_resume ::
  "ceo \<Rightarrow> pending \<Rightarrow> service_reply \<Rightarrow> int \<Rightarrow> ceo \<times> assign_result" where
  "assignTask_resume s p reply now =
     (let task = p_task p;
          taskId = t_id task;
          assignedAgent = current s (p_agent p);
          settled = processTask_finish assignedAgent taskId reply now;
          s1 = s\<lparr>teamAgents := update_agent (name assignedAgent) (fst settled) (teamAgents s)\<rparr>
      in case snd settled of
           Inr result \<Rightarrow>
             let task1 = task\<lparr>t_status := (if pr_success result then Completed else Failed),
                              t_completedAt := Some now, t_result := Some result,
                              t_progress := 100\<rparr>;
                 m = performanceMetrics s1;
                 s2 = (if pr_success result
                       then s1\<lparr>performanceMetrics := m\<lparr>tasksCompleted := tasksCompleted m + 1\<rparr>\<rparr>
                       else s1);
                 s3 = s2\<lparr>taskHistory := taskHistory s2 @ [task1],
                         activeTasks := map_delete taskId (activeTasks s2)\<rparr>
             in (updatePerformanceMetrics s3,
                 \<lparr>ar_success = pr_success result, ar_taskId = Some taskId,
                  ar_assignedAgent = Some (name assignedAgent), ar_result = pr_result result,
                  ar_error = pr_error result\<rparr>)
         | Inl error \<Rightarrow>
             let task1 = task\<lparr>t_status := Failed, t_error := Some (message error),
                              t_completedAt := Some now\<rparr>
             in (s1\<lparr>taskHistory := taskHistory s1 @ [task1],
                    activeTasks := map_delete taskId (activeTasks s1)\<rparr>,
                 \<lparr>ar_success = False, ar_taskId = Some taskId, ar_assignedAgent = None,
                  ar_result = None, ar_error = Some (message error)\<rparr>))"

text \<open>
  One call of \<^verbatim>\<open>assignTask\<close> with nothing running in between: \<open>reply\<close> is what the
  completion service does with the worker's request and \<open>now\<close> the clock when it
  settles. \<open>Inl\<close> is a rejected promise.
\<close>

definition assignTask ::
  "ceo \<Rightarrow> env \<Rightarrow> string \<Rightarrow> string \<Rightarrow> string list \<Rightarrow> service_reply \<Rightarrow> int
     \<Rightarrow> ceo \<times> (js_error + assign_result)" where
  "assignTask s e taskDescription priority requiredSkills reply now =
     (case assignTask_begin s e taskDescription priority requiredSkills of
        (s1, Rejects err) \<Rightarrow> (s1, Inl err)
      | (s1, Resolves r) \<Rightarrow> (s1, Inr r)
      | (s1, Awaits p) \<Rightarrow>
          (let (s2, r) = assignTask_resume s1 p reply now in (s2, Inr r)))"

subsection \<open>getTaskStatus, aggregateResults, calculateSystemHealth\<close>

text \<open>
  \<^verbatim>\<open>{found: true, status: 'active', ...activeTask}\<close>: the spread comes last, so the
  \<^verbatim>\<open>status\<close> of the reply is the task's own, and the reply is the task with
  \<^verbatim>\<open>found\<close>. The history is searched only when the active map has no entry.
\<close>

datatype status_reply = Found task | NotFound string

definition getTaskStatus :: "ceo \<Rightarrow> string \<Rightarrow> status_reply" where
  "getTaskStatus s taskId =
     (case map_of (activeTasks s) taskId of
        Some activeTask \<Rightarrow> Found activeTask
      | None \<Rightarrow>
          (case find (\<lambda>t. t_id t = taskId) (taskHistory s) of
             Some historicalTask \<Rightarrow> Found historicalTask
           | None \<Rightarrow> NotFound ''Task not found''))"

fun found :: "status_reply \<Rightarrow> bool" where
  "found (Found t) = True"
| "found (NotFound e) = False"

text \<open>\<^verbatim>\<open>[...new Set(xs)]\<close>: the distinct elements, in the order of first occurrence.\<close>

definition new_Set :: "'a list \<Rightarrow> 'a list" where
  "new_Set xs = foldl (\<lambda>seen x. if x \<in> set seen then seen else seen @ [x]) [] xs"

record aggregation =
  ag_success :: bool
  ag_error :: "string option"
  ag_aggregated_result :: "string option"
  ag_source_tasks :: "string list option"
  ag_agents_involved :: "string list option"
  ag_aggregation_type :: "string option"

definition no_completed :: string where
  "no_completed = ''No completed tasks found for aggregation''"

text \<open>\<^verbatim>\<open>task.status === 'completed' && task.result?.success\<close>\<close>

definition succeeded :: "task \<Rightarrow> bool" where
  "succeeded t =
     (t_status t = Completed \<and> (case t_result t of Some r \<Rightarrow> pr_success r | None \<Rightarrow> False))"

definition completedTasks :: "ceo \<Rightarrow> string list \<Rightarrow> task list" where
  "completedTasks s taskIds =
     filter succeeded
       (List.map_filter (\<lambda>i. case getTaskStatus s i of Found t \<Rightarrow> Some t | NotFound e \<Rightarrow> None)
          taskIds)"

text \<open>
  \<^verbatim>\<open>aggregateResults\<close>, with the coordinator's own \<^verbatim>\<open>processTask\<close> run from start
  to end: \<open>now\<close> is the clock at the call, \<open>reply\<close> what the completion service does
  with the request and \<open>later\<close> the clock when it settles.
\<close>

definition aggregateResults ::
  "ceo \<Rightarrow> string list \<Rightarrow> string \<Rightarrow> int \<Rightarrow> service_reply \<Rightarrow> int \<Rightarrow> ceo \<times> aggregation" where
  "aggregateResults s taskIds aggregationType now reply later =
     (let completed = completedTasks s taskIds in
      if length completed = 0 then
        (s, \<lparr>ag_success = False, ag_error = Some no_completed, ag_aggregated_result = None,
             ag_source_tasks = None, ag_agents_involved = None,
             ag_aggregation_type = None\<rparr>)
      else
        let aggregationTaskId = ''aggregation-'' @ decimal now;
            started = processTask_start (self s) aggregationTaskId (Aggregation taskIds) now;
            settled = processTask_finish started aggregationTaskId reply later;
            s1 = s\<lparr>self := fst settled, serviceCalls := serviceCalls s + 1\<rparr>
        in case snd settled of
             Inr result \<Rightarrow>
               (s1, \<lparr>ag_success = True, ag_error = None,
                     ag_aggregated_result = pr_result result,
                     ag_source_tasks = Some taskIds,
                     ag_agents_involved = Some (new_Set (map t_assignedAgent completed)),
                     ag_aggregation_type = Some aggregationType\<rparr>)
           | Inl error \<Rightarrow>
               (s1, \<lparr>ag_success = False, ag_error = Some (message error),
                     ag_aggregated_result = None, ag_source_tasks = None,
                     ag_agents_involved = None, ag_aggregation_type = None\<rparr>))"



subsection \<open>The gateway: POST /task\<close>

text \<open>
  The body of a request; a member that is absent is \<open>None\<close>, and the destructuring
  gives \<^verbatim>\<open>priority\<close> and \<^verbatim>\<open>requiredSkills\<close> their defaults.
\<close>

record task_request =
  rq_description :: "string option"
  rq_priority :: "string option"
  rq_requiredSkills :: "string list option"

record http_response =
  rs_code :: nat
  rs_success :: "bool option"
  rs_error :: "string option"
  rs_message :: "string option"
  rs_taskId :: "string option"
  rs_assignedAgent :: "string option"
  rs_result :: "string option"

definition validPriorities :: "string list" where
  "validPriorities = [''high'', ''medium'', ''low'']"

definition bad_priority :: string where
  "bad_priority = ''Priority must be one of: high, medium, low''"

text \<open>
  An answer \<^verbatim>\<open>{success: false, error, message, taskId}\<close> with a status code; the
  answers to a request that is not valid have neither message nor task id.
\<close>

definition failure :: "nat \<Rightarrow> string \<Rightarrow> string option \<Rightarrow> string option \<Rightarrow> http_response" where
  "failure c e m t =
     \<lparr>rs_code = c, rs_success = Some False, rs_error = Some e, rs_message = m,
      rs_taskId = t, rs_assignedAgent = None, rs_result = None\<rparr>"

definition reject :: "nat \<Rightarrow> string \<Rightarrow> http_response" where
  "reject c e = failure c e None None"

text \<open>
  The handler; \<open>ceoAgent\<close> is the module's variable, unset until the agents are
  initialised. The handler awaits \<^verbatim>\<open>assignTask\<close> inside a \<^verbatim>\<open>try\<close> block.
\<close>

definition post_task ::
  "ceo option \<Rightarrow> task_request \<Rightarrow> env \<Rightarrow> service_reply \<Rightarrow> int \<Rightarrow> ceo option \<times> http_response" where
  "post_task ceoAgent req e reply now =
     (case ceoAgent of
        None \<Rightarrow>
          (None, \<lparr>rs_code = 503, rs_success = None, rs_error = Some ''System not initialized'',
                  rs_message = Some ''CEO agent not available'', rs_taskId = None,
                  rs_assignedAgent = None, rs_result = None\<rparr>)
      | Some s \<Rightarrow>
          let priority = (case rq_priority req of Some p \<Rightarrow> p | None \<Rightarrow> ''medium'');
              requiredSkills = (case rq_requiredSkills req of Some r \<Rightarrow> r | None \<Rightarrow> [])
          in (case rq_description req of
               None \<Rightarrow> (Some s, reject 400 ''Task description is required'')
             | Some description \<Rightarrow>
                 if description = [] then (Some s, reject 400 ''Task description is required'')
                 else if priority \<notin> set validPriorities then (Some s, reject 400 bad_priority)
                 else
                   (case assignTask s e description priority requiredSkills reply now of
                      (s1, Inl error) \<Rightarrow>
                        (Some s1, failure 500 ''Internal server error''
                                    (Some (message error)) None)
                    | (s1, Inr result) \<Rightarrow>
                        if ar_success result then
                          (Some s1, \<lparr>rs_code = 201, rs_success = Some True, rs_error = None,
                                     rs_message = Some ''Task assigned successfully'',
                                     rs_taskId = ar_taskId result,
                                     rs_assignedAgent = ar_assignedAgent result,
                                     rs_result = ar_result result\<rparr>)
                        else
                          (Some s1, failure 500 ''Task assignment failed''
                                      (ar_error result) (ar_taskId result)))))"

subsection \<open>Sequences of operations\<close>

text \<open>
  The coordinator together with the calls of \<^verbatim>\<open>assignTask\<close> that are suspended at
  their await. An operation registers a worker, starts a call of \<^verbatim>\<open>assignTask\<close>,
  lets the completion service settle the request of the \<open>i\<close>-th suspended call, which
  then runs to its end and returns, or aggregates. \<^verbatim>\<open>getTaskStatus\<close> and
  \<^verbatim>\<open>calculateSystemHealth\<close> only read. A worker registered under the name of
  a registered one takes its place, also for the calls suspended on it; what a call
  does to the ledger does not depend on the worker that finishes it.
\<close>

type_synonym world = "ceo \<times> pending list"

datatype operation =
    Register agent
  | Submit env string string "string list"
  | Settle nat service_reply int
  | Aggregate "string list" string int service_reply int

text \<open>
  The task id is built from the clock and a random suffix so that it is new: a
  \<^verbatim>\<open>Submit\<close> whose id is already in the ledger is not a step.
\<close>

definition active_ids :: "ceo \<Rightarrow> string list" where
  "active_ids s = map fst (activeTasks s)"

definition history_ids :: "ceo \<Rightarrow> string list" where
  "history_ids s = map t_id (taskHistory s)"

definition fresh :: "ceo \<Rightarrow> string \<Rightarrow> bool" where
  "fresh s i = (i \<notin> set (active_ids s) \<and> i \<notin> set (history_ids s))"

text \<open>
  One step: the next state and the result of the call of \<^verbatim>\<open>assignTask\<close> that returns
  in this step, if one does.
\<close>

fun exec :: "world \<Rightarrow> operation \<Rightarrow> (world \<times> assign_result option) option" where
  "exec (s, ps) (Register a) = Some ((registerTeamAgent s a, ps), None)"
| "exec (s, ps) (Submit e d p rs) =
     (if fresh s (newTaskId e) then
        (case assignTask_begin s e d p rs of
           (s1, Rejects err) \<Rightarrow> Some ((s1, ps), None)
         | (s1, Resolves r) \<Rightarrow> Some ((s1, ps), Some r)
         | (s1, Awaits c) \<Rightarrow> Some ((s1, ps @ [c]), None))
      else None)"
| "exec (s, ps) (Settle i reply now) =
     (if i < length ps then
        (let (s1, r) = assignTask_resume s (ps ! i) reply now
         in Some ((s1, take i ps @ drop (Suc i) ps), Some r))
      else None)"
| "exec (s, ps) (Aggregate ids kind now reply later) =
     Some ((fst (aggregateResults s ids kind now reply later), ps), None)"

fun run :: "world \<Rightarrow> operation list \<Rightarrow> world option" where
  "run w [] = Some w"
| "run w (x # xs) = (case exec w x of None \<Rightarrow> None | Some (w1, r) \<Rightarrow> run w1 xs)"

definition reachable :: "world \<Rightarrow> bool" where
  "reachable w = (\<exists>xs. run (CEOAgent, []) xs = Some w)"

subsection \<open>What the specification says, in its own words\<close>



text \<open>
  The metrics as functions of the history alone: the share of completed tasks in
  percent (0 for an empty history) and the mean time from assignment to completion
  over the completed tasks, in minutes (0 when there is none).
\<close>

definition history_successRate :: "task list \<Rightarrow> real" where
  "history_successRate h =
     (if h = [] then 0
      else real (length (filter (\<lambda>t. t_status t = Completed) h)) / real (length h) * 100)"

definition history_averageCompletionTime :: "task list \<Rightarrow> real" where
  "history_averageCompletionTime h =
     (let done = filter (\<lambda>t. t_status t = Completed) h in
      if done = [] then 0
      else real_of_int (sum_list (map elapsed done)) / real (length done) / 60000)"

definition metrics_fresh :: "ceo \<Rightarrow> bool" where
  "metrics_fresh s =
     (successRate (performanceMetrics s) = history_successRate (taskHistory s) \<and>
      averageCompletionTime (performanceMetrics s)
        = history_averageCompletionTime (taskHistory s))"

subsection \<open>A registry for the examples\<close>

text \<open>Two of the workers that the gateway registers, in this order.\<close>

definition brand_worker :: agent where
  "brand_worker =
     \<lparr>name = ''lil_Brand_Manager'', role = ''Brand_Manager'',
      specialKnowledge = [''Brand Strategy'', ''Brand Identity'', ''Brand Positioning'',
        ''Brand Guidelines'', ''Brand Monitoring''],
      status = Idle, currentTasks = []\<rparr>"

definition seo_worker :: agent where
  "seo_worker =
     \<lparr>name = ''lil_SEO_Specialist'', role = ''SEO_Specialist'',
      specialKnowledge = [''Search Engine Optimization'', ''Keyword Research'',
        ''Technical SEO'', ''Content Optimization'', ''SERP Analysis''],
      status = Idle, currentTasks = []\<rparr>"

definition team :: ceo where
  "team = registerTeamAgent (registerTeamAgent CEOAgent brand_worker) seo_worker"


text \<open>A task without required skills, two calls and what they read, a request.\<close>

definition planning :: string where
  "planning = ''Plan the next quarter''"

definition call_1000 :: env where
  "call_1000 = \<lparr>clock = 1000, random = ''abc''\<rparr>"

definition call_3000 :: env where
  "call_3000 = \<lparr>clock = 3000, random = ''xyz''\<rparr>"

definition urgent_request :: task_request where
  "urgent_request =
     \<lparr>rq_description = Some planning, rq_priority = Some ''urgent'',
      rq_requiredSkills = None\<rparr>"

text \<open>
  The registry of the examples after one task that its worker completed, and after a
  second task whose worker threw.
\<close>

definition after_success :: ceo where
  "after_success = fst (assignTask team call_1000 planning ''high'' [] (Text ''done'') 2000)"

definition after_throw :: ceo where
  "after_throw =
     fst (assignTask after_success call_3000 planning ''high'' [] FailsNullish 4000)"

subsection \<open>Invariants\<close>

text \<open>The ids of the suspended calls.\<close>

definition pending_ids :: "pending list \<Rightarrow> string list" where
  "pending_ids ps = map (\<lambda>c. t_id (p_task c)) ps"

text \<open>
  What holds of the ledger in every reachable state: the suspended calls are the calls
  of distinct tasks of the active map; no id is both active and in the history; no two
  records of the history share an id; an active task is \<^verbatim>\<open>'assigned'\<close> and has no
  result.
\<close>

definition ledger_inv :: "world \<Rightarrow> bool" where
  "ledger_inv w =
     (distinct (pending_ids (snd w))
      \<and> set (pending_ids (snd w)) \<subseteq> set (active_ids (fst w))
      \<and> set (active_ids (fst w)) \<inter> set (history_ids (fst w)) = {}
      \<and> distinct (history_ids (fst w))
      \<and> (\<forall>t \<in> snd ` set (activeTasks (fst w)). t_status t = Assigned))"

text \<open>
  What holds of the metrics in every reachable state: the success rate is a
  percentage, and the average is 0 as long as no task has been completed.
\<close>

definition metrics_inv :: "ceo \<Rightarrow> bool" where
  "metrics_inv s =
     (0 \<le> successRate (performanceMetrics s) \<and> successRate (performanceMetrics s) \<le> 100
      \<and> (filter (\<lambda>t. t_status t = Completed) (taskHistory s) = []
           \<longrightarrow> averageCompletionTime (performanceMetrics s) = 0))"

text \<open>
  A sequence of operations from the constructor on: the state it leads to (the initial
  state, should one of its operations not be a step).
\<close>

definition world_after :: "operation list \<Rightarrow> world" where
  "world_after xs = (case run (CEOAgent, []) xs of Some w \<Rightarrow> w | None \<Rightarrow> (CEOAgent, []))"

definition prologue :: "operation list" where
  "prologue =
     [Register brand_worker, Register seo_worker, Submit call_1000 planning ''high'' []]"

definition settling :: operation where
  "settling = Settle 0 (Text ''done'') 2000"

definition epilogue :: "operation list" where
  "epilogue = [Submit call_3000 planning ''low'' []]"

definition first_result :: assign_result where
  "first_result =
     \<lparr>ar_success = True, ar_taskId = Some ''task-1000-abc'',
      ar_assignedAgent = Some ''lil_Brand_Manager'', ar_result = Some ''done'',
      ar_error = None\<rparr>"

section \<open>Properties\<close>

subsection \<open>Selection\<close>







lemma hd_sort_key_stable:
  assumes "xs \<noteq> []"
  shows "\<exists>pre x post. xs = pre @ x # post \<and> sort_key f xs = x # tl (sort_key f xs)
           \<and> (\<forall>y \<in> set pre. f x < f y) \<and> (\<forall>y \<in> set post. f x \<le> f y)"
proof -
  let ?ys = "sort_key f xs"
  have ne: "?ys \<noteq> []"
  proof
    assume "?ys = []"
    then have "length ?ys = 0" by (simp only: list.size)
    then have "length xs = 0" by (simp only: length_sort)
    then show False using assms by simp
  qed
  then obtain x zs where ys: "?ys = x # zs" by (cases ?ys) auto
  have srt: "sorted (map f (x # zs))" using sorted_sort_key [of f xs] by (simp only: ys)
  have mem: "set xs = set (x # zs)" using set_sort [of f xs] by (simp only: ys)
  have least: "f x \<le> f y" if "y \<in> set xs" for y
    using that srt mem by auto
  let ?P = "\<lambda>y. f y = f x"
  have "filter ?P (x # zs) = filter ?P xs" using sort_key_stable [of f "f x" xs] by (simp only: ys)
  then have f: "filter ?P xs = x # filter ?P zs" by simp
  from f [unfolded filter_eq_Cons_iff]
  obtain pre post where xs: "xs = pre @ x # post" and pre: "\<forall>u \<in> set pre. f u \<noteq> f x"
    by blast
  have "\<forall>y \<in> set pre. f x < f y"
  proof
    fix y assume y: "y \<in> set pre"
    then have "y \<in> set xs" using xs by simp
    then have "f x \<le> f y" by (rule least)
    moreover have "f y \<noteq> f x" using pre y by blast
    ultimately show "f x < f y" by simp
  qed
  moreover have "\<forall>y \<in> set post. f x \<le> f y"
  proof
    fix y assume "y \<in> set post"
    then have "y \<in> set xs" using xs by simp
    then show "f x \<le> f y" by (rule least)
  qed
  ultimately show ?thesis using xs ys by auto
qed


lemma selectBestAgent_idle:
  assumes "filter (\<lambda>a. status a = Idle) (teamAgents s) \<noteq> []"
  shows "\<exists>pre a post.
           filter (\<lambda>a. status a = Idle) (teamAgents s) = pre @ a # post
           \<and> selectBestAgent s rs d = Inr (Some a)
           \<and> (\<forall>b \<in> set pre. agentScore b rs d < agentScore a rs d)
           \<and> (\<forall>b \<in> set post. agentScore b rs d \<le> agentScore a rs d)"
proof -
  let ?av = "filter (\<lambda>a. status a = Idle) (teamAgents s)"
  let ?g = "\<lambda>a. (a, agentScore a rs d)"
  let ?f = "\<lambda>p :: agent \<times> int. - snd p"
  have "map ?g ?av \<noteq> []" using assms by simp
  from hd_sort_key_stable [OF this, of ?f]
  obtain pre' x post' where
    split: "map ?g ?av = pre' @ x # post'" and
    hd: "sort_key ?f (map ?g ?av) = x # tl (sort_key ?f (map ?g ?av))" and
    before: "\<forall>y \<in> set pre'. ?f x < ?f y" and
    after: "\<forall>y \<in> set post'. ?f x \<le> ?f y"
    by blast
  from split obtain pre a post where
    av: "?av = pre @ a # post" and pre': "pre' = map ?g pre" and x: "x = ?g a"
    and post': "post' = map ?g post"
    by (auto simp: map_eq_append_conv map_eq_Cons_conv)
  have sel: "selectBestAgent s rs d = Inr (Some a)"
  proof -
    have "selectBestAgent s rs d =
          Inr (case sort_key ?f (map ?g ?av) of
                 p # _ \<Rightarrow> Some (fst p)
               | [] \<Rightarrow> (case ?av of a # _ \<Rightarrow> Some a | [] \<Rightarrow> None))"
      using assms by (simp add: selectBestAgent_def Let_def)
    also have "\<dots> = Inr (Some (fst x))" by (subst hd) simp
    finally show ?thesis by (simp add: x)
  qed
  have "\<forall>b \<in> set pre. agentScore b rs d < agentScore a rs d"
    using before by (simp add: pre' x)
  moreover have "\<forall>b \<in> set post. agentScore b rs d \<le> agentScore a rs d"
    using after by (simp add: post' x)
  ultimately show ?thesis using av sel by blast
qed


lemma selectBestAgent_busy:
  assumes "filter (\<lambda>a. status a = Idle) (teamAgents s) = []"
  shows "selectBestAgent s rs d =
     (case teamAgents s of
        [] \<Rightarrow> Inl (TypeError reduce_empty)
      | first # others \<Rightarrow>
          Inr (Some (foldl (\<lambda>leastBusy a.
                 if length (currentTasks a) < length (currentTasks leastBusy)
                 then a else leastBusy) first others)))"
  using assms by (simp add: selectBestAgent_def)

lemma selectBestAgent_never_none: "selectBestAgent s rs d \<noteq> Inr None"
proof (cases "filter (\<lambda>a. status a = Idle) (teamAgents s) = []")
  case True
  then show ?thesis by (simp add: selectBestAgent_busy split: list.split)
next
  case False
  from selectBestAgent_idle [OF this, of rs d] show ?thesis by auto
qed

lemma selectBestAgent_member:
  assumes "selectBestAgent s rs d = Inr (Some a)"
  shows "a \<in> set (teamAgents s)"
proof (cases "filter (\<lambda>a. status a = Idle) (teamAgents s) = []")
  case True
  have fold_mem: "foldl (\<lambda>leastBusy a.
                 if length (currentTasks a) < length (currentTasks leastBusy)
                 then a else leastBusy) x xs \<in> set (x # xs)" for x :: agent and xs
    by (induction xs arbitrary: x) auto
  from True assms show ?thesis
    using fold_mem by (auto simp: selectBestAgent_busy split: list.splits)
next
  case False
  from selectBestAgent_idle [OF this, of rs d] obtain pre b post where
    "filter (\<lambda>a. status a = Idle) (teamAgents s) = pre @ b # post"
    "selectBestAgent s rs d = Inr (Some b)" by blast
  with assms have "a \<in> set (filter (\<lambda>a. status a = Idle) (teamAgents s))" by simp
  then show ?thesis by simp
qed

lemma selectBestAgent_total:
  "teamAgents s \<noteq> [] \<Longrightarrow> \<exists>a. selectBestAgent s rs d = Inr (Some a)"
proof (cases "filter (\<lambda>a. status a = Idle) (teamAgents s) = []")
  case True
  assume "teamAgents s \<noteq> []"
  with True show ?thesis by (simp add: selectBestAgent_busy split: list.split)
next
  case False
  from selectBestAgent_idle [OF this, of rs d] show ?thesis by blast
qed

lemma selectBestAgent_empty:
  "teamAgents s = [] \<Longrightarrow> selectBestAgent s rs d = Inl (TypeError reduce_empty)"
  by (simp add: selectBestAgent_def)














subsection \<open>System health\<close>





subsection \<open>assignTask\<close>

text \<open>
  With a worker registered the call returns a result, whatever the completion service
  does: what \<^verbatim>\<open>processTask\<close> throws, the \<^verbatim>\<open>catch\<close> block turns into a result.
\<close>

lemma assignTask_returns:
  assumes "teamAgents s \<noteq> []"
  shows "\<exists>s1 r. assignTask s e d p rs reply now = (s1, Inr r)"
proof -
  from selectBestAgent_total [OF assms] obtain a where "selectBestAgent s rs d = Inr (Some a)"
    by blast
  then show ?thesis
    by (simp add: assignTask_def assignTask_begin_def assignTask_dispatch_def Let_def
        split: prod.split)
qed

text \<open>The table of deadlines, and the default for a string that names no property.\<close>

lemma calculateDeadline_fallback:
  assumes "p \<notin> {''high'', ''medium'', ''low''}" and "p \<notin> set inherited_members"
  shows "calculateDeadline now p = Date (now + 24 * 60 * 60 * 1000)"
  using assms by (simp add: calculateDeadline_def)

lemma calculateDeadline_table:
  "calculateDeadline now ''high'' = Date (now + 2 * 60 * 60 * 1000)"
  "calculateDeadline now ''medium'' = Date (now + 24 * 60 * 60 * 1000)"
  "calculateDeadline now ''low'' = Date (now + 72 * 60 * 60 * 1000)"
  by (simp_all add: calculateDeadline_def)

text \<open>
  C1, as stated, fails: \<^verbatim>\<open>assignTask\<close> has no check of the priority. Called with
  \<^verbatim>\<open>'urgent'\<close> on the registry of the examples it returns a task id, the worker is
  invoked and the history gains the task.
\<close>

theorem assignTask_accepts_urgent:
  "snd (assignTask team call_1000 planning ''urgent'' [] (Text ''done'') 2000)
     = Inr \<lparr>ar_success = True, ar_taskId = Some ''task-1000-abc'',
            ar_assignedAgent = Some ''lil_Brand_Manager'', ar_result = Some ''done'',
            ar_error = None\<rparr>
   \<and> taskHistory team = []
   \<and> map t_id (taskHistory (fst (assignTask team call_1000 planning ''urgent'' []
                                    (Text ''done'') 2000))) = [''task-1000-abc'']
   \<and> map t_priority (taskHistory (fst (assignTask team call_1000 planning ''urgent'' []
                                    (Text ''done'') 2000))) = [''urgent'']
   \<and> serviceCalls team = 0
   \<and> serviceCalls (fst (assignTask team call_1000 planning ''urgent'' []
                                    (Text ''done'') 2000)) = 1"
  by code_simp

text \<open>
  C1, amended. The check is in the gateway: a \<^verbatim>\<open>POST /task\<close> with a description and
  a priority outside high, medium and low is answered with status 400 and the error
  \<^verbatim>\<open>Priority must be one of: high, medium, low\<close>, without a task id; the coordinator
  is as before (no ledger entry, no worker invoked): \<^verbatim>\<open>assignTask\<close> is not called.
\<close>

theorem gateway_rejects_unknown_priority:
  assumes "rq_description req = Some d" and "d \<noteq> []"
    and "rq_priority req = Some p" and "p \<notin> {''high'', ''medium'', ''low''}"
  shows "post_task (Some s) req e reply now = (Some s, reject 400 bad_priority)
         \<and> rs_success (reject 400 bad_priority) = Some False
         \<and> rs_taskId (reject 400 bad_priority) = None"
  using assms by (simp add: post_task_def validPriorities_def reject_def failure_def)

theorem gateway_rejects_unknown_priority_witness:
  "rq_description urgent_request = Some planning \<and> planning \<noteq> []
   \<and> rq_priority urgent_request = Some ''urgent''
   \<and> ''urgent'' \<notin> {''high'', ''medium'', ''low''}
   \<and> post_task (Some team) urgent_request call_1000 (Text ''done'') 2000
       = (Some team, reject 400 bad_priority)"
proof -
  have h: "rq_description urgent_request = Some planning" "planning \<noteq> []"
    "rq_priority urgent_request = Some ''urgent''" "''urgent'' \<notin> {''high'', ''medium'', ''low''}"
    by (simp_all add: urgent_request_def planning_def)
  from gateway_rejects_unknown_priority [OF h, of team call_1000 "Text ''done''" 2000] h
  show ?thesis by simp
qed

text \<open>
  C3. Straight after the constructor, with no worker registered (as in
  \<^verbatim>\<open>test/test_ceo.js\<close>), every call of \<^verbatim>\<open>assignTask\<close> throws the
  \<^verbatim>\<open>TypeError\<close> of \<^verbatim>\<open>reduce\<close> on an empty array: it returns no result.
\<close>

theorem assignTask_throws_without_workers:
  "assignTask CEOAgent e d p rs reply now = (CEOAgent, Inl (TypeError reduce_empty))"
  by (simp add: assignTask_def assignTask_begin_def selectBestAgent_def CEOAgent_def)




text \<open>
  C10. For the priority \<^verbatim>\<open>'toString'\<close> (outside high, medium and low) the task is
  created and executed, but the deadline is not the current time plus 24 hours:
  \<^verbatim>\<open>deadlineHours['toString']\<close> is the inherited function, and the date handed to
  the worker is invalid.
\<close>

theorem deadline_of_inherited_member:
  "calculateDeadline now ''toString'' = InvalidDate
   \<and> map t_priority
        (taskHistory (fst (assignTask team call_1000 planning ''toString'' []
                             (Text ''done'') 2000)))
     = [''toString'']
   \<and> map (lt_context \<circ> snd)
        (concat (map currentTasks
           (teamAgents (fst (assignTask team call_1000 planning ''toString'' []
                               (Text ''done'') 2000)))))
     = [Delegated ''toString'' ''lil_Boss_CEO'' InvalidDate]"
proof -
  have "calculateDeadline now ''toString'' = InvalidDate"
    by (simp add: calculateDeadline_def inherited_members_def)
  moreover have "map t_priority
        (taskHistory (fst (assignTask team call_1000 planning ''toString'' []
                             (Text ''done'') 2000)))
     = [''toString'']"
    by code_simp
  moreover have "map (lt_context \<circ> snd)
        (concat (map currentTasks
           (teamAgents (fst (assignTask team call_1000 planning ''toString'' []
                               (Text ''done'') 2000)))))
     = [Delegated ''toString'' ''lil_Boss_CEO'' InvalidDate]"
    by code_simp
  ultimately show ?thesis by blast
qed

subsection \<open>The ledger\<close>

lemma map_set_keys: "fst ` set (map_set k v ps) = insert k (fst ` set ps)"
  by (induction ps) auto

lemma map_set_values: "x \<in> set (map_set k v ps) \<Longrightarrow> snd x = v \<or> x \<in> set ps"
  by (induction ps) (auto split: if_splits)


lemma map_delete_keys: "fst ` set (map_delete k ps) = fst ` set ps - {k}"
  by (auto simp: map_delete_def)

lemma map_delete_values: "x \<in> set (map_delete k ps) \<Longrightarrow> x \<in> set ps"
  by (simp add: map_delete_def)

lemma updatePerformanceMetrics_ledger [simp]:
  "taskHistory (updatePerformanceMetrics s) = taskHistory s"
  "activeTasks (updatePerformanceMetrics s) = activeTasks s"
  "teamAgents (updatePerformanceMetrics s) = teamAgents s"
  "serviceCalls (updatePerformanceMetrics s) = serviceCalls s"
  by (simp_all add: updatePerformanceMetrics_def Let_def)

lemma begin_cases:
  assumes "assignTask_begin s e d p rs = (s1, b)"
  obtains (rejects) err where "b = Rejects err" and "s1 = s"
  | (awaits) c where "b = Awaits c" and "t_id (p_task c) = newTaskId e"
      and "t_status (p_task c) = Assigned" and "t_priority (p_task c) = p"
      and "activeTasks s1 = map_set (newTaskId e) (p_task c) (activeTasks s)"
      and "taskHistory s1 = taskHistory s"
      and "successRate (performanceMetrics s1) = successRate (performanceMetrics s)"
      and "averageCompletionTime (performanceMetrics s1)
             = averageCompletionTime (performanceMetrics s)"
proof (cases "selectBestAgent s rs d")
  case (Inl err)
  with assms have "b = Rejects err" "s1 = s" by (auto simp: assignTask_begin_def)
  then show ?thesis by (rule rejects)
next
  case (Inr sel)
  with selectBestAgent_never_none [of s rs d] obtain a where "sel = Some a" by (cases sel) auto
  with Inr assms show ?thesis
    by (intro awaits [of "\<lparr>p_task = _, p_agent = _\<rparr>"])
       (auto simp: assignTask_begin_def assignTask_dispatch_def Let_def)
qed

lemma resume_ledger:
  assumes "assignTask_resume s c reply now = (s1, r)"
  shows "ar_taskId r = Some (t_id (p_task c))"
    and "activeTasks s1 = map_delete (t_id (p_task c)) (activeTasks s)"
    and "\<exists>t. taskHistory s1 = taskHistory s @ [t] \<and> t_id t = t_id (p_task c)"
  using assms
  by (auto simp: assignTask_resume_def Let_def split: sum.splits if_splits)


lemma aggregateResults_ledger [simp]:
  "activeTasks (fst (aggregateResults s ids kind now reply later)) = activeTasks s"
  "taskHistory (fst (aggregateResults s ids kind now reply later)) = taskHistory s"
  "teamAgents (fst (aggregateResults s ids kind now reply later)) = teamAgents s"
  "performanceMetrics (fst (aggregateResults s ids kind now reply later)) = performanceMetrics s"
  by (simp_all add: aggregateResults_def Let_def split: sum.split)

lemma registerTeamAgent_ledger [simp]:
  "activeTasks (registerTeamAgent s a) = activeTasks s"
  "taskHistory (registerTeamAgent s a) = taskHistory s"
  "performanceMetrics (registerTeamAgent s a) = performanceMetrics s"
  by (simp_all add: registerTeamAgent_def)

lemma remove_nth_distinct:
  assumes "distinct xs" and "i < length xs"
  shows "distinct (take i xs @ drop (Suc i) xs)"
    and "set (take i xs @ drop (Suc i) xs) = set xs - {xs ! i}"
proof -
  from assms(2) have xs: "xs = take i xs @ xs ! i # drop (Suc i) xs"
    by (rule id_take_nth_drop)
  with assms(1) have d: "distinct (take i xs @ xs ! i # drop (Suc i) xs)" by simp
  then show "distinct (take i xs @ drop (Suc i) xs)" by simp
  have "set xs = set (take i xs @ xs ! i # drop (Suc i) xs)" using xs by simp
  also have "\<dots> = insert (xs ! i) (set (take i xs @ drop (Suc i) xs))" by simp
  finally have "set xs = insert (xs ! i) (set (take i xs @ drop (Suc i) xs))" .
  moreover have "xs ! i \<notin> set (take i xs @ drop (Suc i) xs)" using d by auto
  ultimately show "set (take i xs @ drop (Suc i) xs) = set xs - {xs ! i}" by auto
qed

lemma ledger_inv_init: "ledger_inv (CEOAgent, [])"
  by (simp add: ledger_inv_def CEOAgent_def pending_ids_def active_ids_def history_ids_def)

lemma exec_ledger_inv:
  assumes inv: "ledger_inv w" and step: "exec w x = Some (w1, r)"
  shows "ledger_inv w1"
proof -
  obtain s ps where w: "w = (s, ps)" by (cases w)
  from inv have
    d: "distinct (pending_ids ps)" and
    sub: "set (pending_ids ps) \<subseteq> set (active_ids s)" and
    dis: "set (active_ids s) \<inter> set (history_ids s) = {}" and
    dh: "distinct (history_ids s)" and
    asg: "\<forall>t \<in> snd ` set (activeTasks s). t_status t = Assigned"
    by (simp_all add: ledger_inv_def w)
  show ?thesis
  proof (cases x)
    case (Register a)
    with step have "w1 = (registerTeamAgent s a, ps)" by (simp add: w)
    with inv show ?thesis
      by (simp add: ledger_inv_def w active_ids_def history_ids_def)
  next
    case (Submit e dsc p rs)
    with step have fr: "fresh s (newTaskId e)" by (simp add: w split: if_splits)
    obtain s1 b where beg: "assignTask_begin s e dsc p rs = (s1, b)"
      by (cases "assignTask_begin s e dsc p rs")
    from beg show ?thesis
    proof (cases rule: begin_cases)
      case (rejects err)
      with step Submit fr beg have "w1 = (s, ps)" by (simp add: w)
      with inv w show ?thesis by simp
    next
      case (awaits c)
      with step Submit fr beg have w1: "w1 = (s1, ps @ [c])" by (simp add: w)
      have act: "set (active_ids s1) = insert (newTaskId e) (set (active_ids s))"
        by (simp add: active_ids_def awaits map_set_keys)
      have hist: "history_ids s1 = history_ids s" by (simp add: history_ids_def awaits)
      have pend: "pending_ids (ps @ [c]) = pending_ids ps @ [newTaskId e]"
        by (simp add: pending_ids_def awaits)
      have new: "newTaskId e \<notin> set (active_ids s)" "newTaskId e \<notin> set (history_ids s)"
        using fr by (simp_all add: fresh_def)
      have "distinct (pending_ids (ps @ [c]))" using d sub new by (auto simp: pend)
      moreover have "set (pending_ids (ps @ [c])) \<subseteq> set (active_ids s1)"
        using sub by (auto simp: pend act)
      moreover have "set (active_ids s1) \<inter> set (history_ids s1) = {}"
        using dis new by (auto simp: act hist)
      moreover have "distinct (history_ids s1)" using dh by (simp add: hist)
      moreover have "\<forall>t \<in> snd ` set (activeTasks s1). t_status t = Assigned"
        using asg awaits by (auto dest: map_set_values)
      ultimately show ?thesis by (simp add: ledger_inv_def w1)
    qed
  next
    case (Settle i reply now)
    with step have i: "i < length ps" by (simp add: w split: if_splits)
    obtain s1 res where res: "assignTask_resume s (ps ! i) reply now = (s1, res)"
      by (cases "assignTask_resume s (ps ! i) reply now")
    with step Settle i have w1: "w1 = (s1, take i ps @ drop (Suc i) ps)" by (simp add: w)
    let ?k = "t_id (p_task (ps ! i))"
    have k: "pending_ids ps ! i = ?k" using i by (simp add: pending_ids_def)
    have pend: "pending_ids (take i ps @ drop (Suc i) ps)
                  = take i (pending_ids ps) @ drop (Suc i) (pending_ids ps)"
      by (simp add: pending_ids_def take_map drop_map)
    have li: "i < length (pending_ids ps)" using i by (simp add: pending_ids_def)
    note rm = remove_nth_distinct [OF d li]
    have act: "set (active_ids s1) = set (active_ids s) - {?k}"
      using resume_ledger(2) [OF res] by (simp add: active_ids_def map_delete_keys)
    from resume_ledger(3) [OF res] obtain t where
      t: "taskHistory s1 = taskHistory s @ [t]" "t_id t = ?k" by blast
    then have hist: "history_ids s1 = history_ids s @ [?k]" by (simp add: history_ids_def)
    have kin: "?k \<in> set (active_ids s)" using sub li k nth_mem by fastforce
    then have knot: "?k \<notin> set (history_ids s)" using dis by auto
    have "distinct (pending_ids (take i ps @ drop (Suc i) ps))" using rm(1) by (simp add: pend)
    moreover have "set (pending_ids (take i ps @ drop (Suc i) ps)) \<subseteq> set (active_ids s1)"
      using rm(2) sub by (auto simp: pend act k)
    moreover have "set (active_ids s1) \<inter> set (history_ids s1) = {}"
      using dis by (auto simp: act hist)
    moreover have "distinct (history_ids s1)" using dh knot by (simp add: hist)
    moreover have "\<forall>t \<in> snd ` set (activeTasks s1). t_status t = Assigned"
      using asg resume_ledger(2) [OF res] by (auto dest: map_delete_values)
    ultimately show ?thesis by (simp add: ledger_inv_def w1)
  next
    case (Aggregate ids kind now reply later)
    with step have "w1 = (fst (aggregateResults s ids kind now reply later), ps)"
      by (simp add: w)
    with inv show ?thesis
      by (simp add: ledger_inv_def w active_ids_def history_ids_def)
  qed
qed

lemma run_ledger_inv:
  "ledger_inv w \<Longrightarrow> run w xs = Some w1 \<Longrightarrow> ledger_inv w1"
proof (induction xs arbitrary: w)
  case Nil
  then show ?case by simp
next
  case (Cons x xs)
  from Cons.prems(2) obtain w' r where "exec w x = Some (w', r)" "run w' xs = Some w1"
    by (auto split: option.splits)
  with Cons.IH exec_ledger_inv [OF Cons.prems(1)] show ?case by blast
qed

lemma reachable_ledger_inv:
  assumes "reachable w"
  shows "ledger_inv w"
proof -
  from assms obtain xs where "run (CEOAgent, []) xs = Some w" by (auto simp: reachable_def)
  with ledger_inv_init show ?thesis by (rule run_ledger_inv)
qed

lemma exec_returns_Settle:
  assumes "exec w x = Some (w1, Some r)"
  obtains i reply now where "x = Settle i reply now"
proof (cases x)
  case (Submit e dsc p rs)
  obtain s ps where w: "w = (s, ps)" by (cases w)
  obtain s1 b where beg: "assignTask_begin s e dsc p rs = (s1, b)"
    by (cases "assignTask_begin s e dsc p rs")
  from beg have False
    by (cases rule: begin_cases) (use assms Submit beg in \<open>auto simp: w split: if_splits\<close>)
  then show ?thesis ..
next
  case (Register a)
  with assms have False by (cases w) simp
  then show ?thesis ..
next
  case (Aggregate ids kind now reply later)
  with assms have False by (cases w) simp
  then show ?thesis ..
qed

lemma exec_Settle:
  assumes "exec w (Settle i reply now) = Some (w1, Some r)"
  obtains k where "ar_taskId r = Some k" and "k \<in> set (pending_ids (snd w))"
    and "set (active_ids (fst w1)) = set (active_ids (fst w)) - {k}"
    and "history_ids (fst w1) = history_ids (fst w) @ [k]"
proof -
  obtain s ps where w: "w = (s, ps)" by (cases w)
  from assms have i: "i < length ps" by (simp add: w split: if_splits)
  obtain s1 res where res: "assignTask_resume s (ps ! i) reply now = (s1, res)"
    by (cases "assignTask_resume s (ps ! i) reply now")
  with assms i have w1: "w1 = (s1, take i ps @ drop (Suc i) ps)" and r: "r = res"
    by (simp_all add: w)
  let ?k = "t_id (p_task (ps ! i))"
  have "ar_taskId r = Some ?k" using resume_ledger(1) [OF res] r by simp
  moreover have "?k \<in> set (pending_ids (snd w))" using i by (simp add: w pending_ids_def)
  moreover have "set (active_ids (fst w1)) = set (active_ids (fst w)) - {?k}"
    using resume_ledger(2) [OF res] by (simp add: w w1 active_ids_def map_delete_keys)
  moreover from resume_ledger(3) [OF res]
  have "history_ids (fst w1) = history_ids (fst w) @ [?k]"
    by (auto simp: w w1 history_ids_def)
  ultimately show ?thesis by (rule that)
qed

text \<open>A step changes the ledger by adding a new id to the active map, by moving an
  id from the active map to the end of the history, or not at all.\<close>

lemma exec_ledger:
  assumes "exec w x = Some (w1, r)"
  shows "(set (active_ids (fst w1)) = set (active_ids (fst w))
            \<and> history_ids (fst w1) = history_ids (fst w))
         \<or> (\<exists>k. fresh (fst w) k \<and> r = None
              \<and> set (active_ids (fst w1)) = insert k (set (active_ids (fst w)))
              \<and> history_ids (fst w1) = history_ids (fst w))
         \<or> (\<exists>k. set (active_ids (fst w1)) = set (active_ids (fst w)) - {k}
              \<and> history_ids (fst w1) = history_ids (fst w) @ [k])"
proof -
  obtain s ps where w: "w = (s, ps)" by (cases w)
  show ?thesis
  proof (cases x)
    case (Register a)
    with assms show ?thesis by (auto simp: w active_ids_def history_ids_def)
  next
    case (Submit e dsc p rs)
    with assms have fr: "fresh s (newTaskId e)" by (simp add: w split: if_splits)
    obtain s1 b where beg: "assignTask_begin s e dsc p rs = (s1, b)"
      by (cases "assignTask_begin s e dsc p rs")
    from beg show ?thesis
    proof (cases rule: begin_cases)
      case (rejects err)
      with assms Submit fr beg show ?thesis by (auto simp: w)
    next
      case (awaits c)
      with assms Submit fr beg have "w1 = (s1, ps @ [c])" "r = None" by (auto simp: w)
      moreover have "set (active_ids s1) = insert (newTaskId e) (set (active_ids s))"
        by (simp add: active_ids_def awaits map_set_keys)
      moreover have "history_ids s1 = history_ids s" by (simp add: history_ids_def awaits)
      ultimately show ?thesis using fr by (auto simp: w)
    qed
  next
    case (Settle i reply now)
    with assms obtain res where "r = Some res" by (auto simp: w split: if_splits prod.splits)
    with assms Settle have "exec w (Settle i reply now) = Some (w1, Some res)" by simp
    then show ?thesis by (rule exec_Settle) blast
  next
    case (Aggregate ids kind now reply later)
    with assms show ?thesis by (auto simp: w active_ids_def history_ids_def)
  qed
qed

lemma exec_archived:
  assumes "exec w x = Some (w1, r)"
    and "k \<in> set (history_ids (fst w))" and "k \<notin> set (active_ids (fst w))"
  shows "k \<in> set (history_ids (fst w1)) \<and> k \<notin> set (active_ids (fst w1))"
proof -
  from exec_ledger [OF assms(1)] consider
    (same) "set (active_ids (fst w1)) = set (active_ids (fst w))"
      "history_ids (fst w1) = history_ids (fst w)"
  | (add) j where "fresh (fst w) j"
      "set (active_ids (fst w1)) = insert j (set (active_ids (fst w)))"
      "history_ids (fst w1) = history_ids (fst w)"
  | (move) j where "set (active_ids (fst w1)) = set (active_ids (fst w)) - {j}"
      "history_ids (fst w1) = history_ids (fst w) @ [j]"
    by blast
  then show ?thesis
  proof cases
    case same
    with assms(2,3) show ?thesis by simp
  next
    case (add j)
    from add(1) assms(2) have "j \<noteq> k" by (auto simp: fresh_def)
    with add(2,3) assms(2,3) show ?thesis by simp
  next
    case (move j)
    with assms(2,3) show ?thesis by simp
  qed
qed

lemma run_archived:
  "run w xs = Some w1 \<Longrightarrow> k \<in> set (history_ids (fst w)) \<Longrightarrow> k \<notin> set (active_ids (fst w))
   \<Longrightarrow> k \<in> set (history_ids (fst w1)) \<and> k \<notin> set (active_ids (fst w1))"
proof (induction xs arbitrary: w)
  case Nil
  then show ?case by simp
next
  case (Cons x xs)
  from Cons.prems(1) obtain w' r where st: "exec w x = Some (w', r)" "run w' xs = Some w1"
    by (auto split: option.splits)
  from exec_archived [OF st(1) Cons.prems(2,3)] Cons.IH [OF st(2)] show ?case by blast
qed

lemma exec_kept:
  assumes "exec w x = Some (w1, r)"
    and "k \<in> set (active_ids (fst w)) \<union> set (history_ids (fst w))"
  shows "k \<in> set (active_ids (fst w1)) \<union> set (history_ids (fst w1))"
proof -
  from exec_ledger [OF assms(1)] consider
    (same) "set (active_ids (fst w1)) = set (active_ids (fst w))"
      "history_ids (fst w1) = history_ids (fst w)"
  | (add) j where
      "set (active_ids (fst w1)) = insert j (set (active_ids (fst w)))"
      "history_ids (fst w1) = history_ids (fst w)"
  | (move) j where "set (active_ids (fst w1)) = set (active_ids (fst w)) - {j}"
      "history_ids (fst w1) = history_ids (fst w) @ [j]"
    by blast
  then show ?thesis
  proof cases
    case same
    with assms(2) show ?thesis by simp
  next
    case (add j)
    with assms(2) show ?thesis by auto
  next
    case (move j)
    with assms(2) show ?thesis by (cases "k = j") auto
  qed
qed

lemma run_kept:
  "run w xs = Some w1 \<Longrightarrow> k \<in> set (active_ids (fst w)) \<union> set (history_ids (fst w))
   \<Longrightarrow> k \<in> set (active_ids (fst w1)) \<union> set (history_ids (fst w1))"
proof (induction xs arbitrary: w)
  case Nil
  then show ?case by simp
next
  case (Cons x xs)
  from Cons.prems(1) obtain w' r where st: "exec w x = Some (w', r)" "run w' xs = Some w1"
    by (auto split: option.splits)
  from exec_kept [OF st(1) Cons.prems(2)] Cons.IH [OF st(2)] show ?case by blast
qed

lemma found_iff:
  "found (getTaskStatus s k) \<longleftrightarrow> k \<in> set (active_ids s) \<or> k \<in> set (history_ids s)"
proof -
  have a: "map_of (activeTasks s) k = None \<longleftrightarrow> k \<notin> set (active_ids s)"
    by (simp add: active_ids_def map_of_eq_None_iff)
  have h: "find (\<lambda>t. t_id t = k) (taskHistory s) = None \<longleftrightarrow> k \<notin> set (history_ids s)"
    by (auto simp: history_ids_def find_None_iff)
  show ?thesis
  proof (cases "map_of (activeTasks s) k")
    case None
    with a h show ?thesis
      by (cases "find (\<lambda>t. t_id t = k) (taskHistory s)") (auto simp: getTaskStatus_def)
  next
    case (Some t)
    with a show ?thesis by (auto simp: getTaskStatus_def)
  qed
qed

lemma one_record:
  "distinct (map f xs) \<Longrightarrow> k \<in> set (map f xs) \<Longrightarrow> length (filter (\<lambda>x. f x = k) xs) = 1"
proof (induction xs)
  case Nil
  then show ?case by simp
next
  case (Cons x xs)
  show ?case
  proof (cases "f x = k")
    case True
    with Cons.prems(1) have "k \<notin> f ` set xs" by simp
    then have "\<forall>y \<in> set xs. f y \<noteq> k" by blast
    then have "filter (\<lambda>y. f y = k) xs = []" by (simp add: filter_empty_conv)
    with True show ?thesis by simp
  next
    case False
    with Cons show ?thesis by auto
  qed
qed

lemma run_append: "run w xs = Some w1 \<Longrightarrow> run w1 ys = Some w2 \<Longrightarrow> run w (xs @ ys) = Some w2"
  by (induction xs arbitrary: w) (auto split: option.splits)

lemma reachable_run: "reachable w \<Longrightarrow> run w xs = Some w1 \<Longrightarrow> reachable w1"
  unfolding reachable_def using run_append by blast

lemma reachable_exec: "reachable w \<Longrightarrow> exec w x = Some (w1, r) \<Longrightarrow> reachable w1"
  using reachable_run [of w "[x]" w1] by simp

text \<open>
  C5. Let a call of \<^verbatim>\<open>assignTask\<close> return the task id \<open>i\<close> in a step from a
  reachable state \<open>w\<close>, and let any operations follow, up to \<open>w2\<close> (generated task ids
  being new). Before the return \<open>i\<close> is active and not in the history; at \<open>w2\<close> it is
  not active and the history has exactly one record of it, so it has moved once and not
  back; \<^verbatim>\<open>getTaskStatus\<close> finds it. And every id that is in the ledger at \<open>w\<close> is at
  \<open>w2\<close> in exactly one of the active map and the history.
\<close>

theorem task_in_exactly_one_set:
  assumes "reachable w" and "exec w x = Some (w1, Some r)" and "ar_taskId r = Some i"
    and "run w1 xs = Some w2"
  shows "i \<in> set (active_ids (fst w)) \<and> i \<notin> set (history_ids (fst w))
         \<and> i \<notin> set (active_ids (fst w2)) \<and> i \<in> set (history_ids (fst w2))
         \<and> length (filter (\<lambda>t. t_id t = i) (taskHistory (fst w2))) = 1
         \<and> found (getTaskStatus (fst w2) i)
         \<and> (\<forall>j \<in> set (active_ids (fst w)) \<union> set (history_ids (fst w)).
               (j \<in> set (active_ids (fst w2))) \<noteq> (j \<in> set (history_ids (fst w2))))"
proof -
  from assms(2) obtain n reply now where x: "x = Settle n reply now"
    by (rule exec_returns_Settle)
  have inv: "ledger_inv w" using assms(1) by (rule reachable_ledger_inv)
  from assms(2) [unfolded x] obtain k where
    k: "ar_taskId r = Some k" "k \<in> set (pending_ids (snd w))"
    "set (active_ids (fst w1)) = set (active_ids (fst w)) - {k}"
    "history_ids (fst w1) = history_ids (fst w) @ [k]"
    by (rule exec_Settle)
  with assms(3) have ki: "k = i" by simp
  have act: "i \<in> set (active_ids (fst w))" using inv k(2) ki by (auto simp: ledger_inv_def)
  then have nohist: "i \<notin> set (history_ids (fst w))" using inv by (auto simp: ledger_inv_def)
  have "i \<in> set (history_ids (fst w1))" "i \<notin> set (active_ids (fst w1))"
    using k(3,4) ki by simp_all
  with run_archived [OF assms(4)] have arch:
    "i \<in> set (history_ids (fst w2))" "i \<notin> set (active_ids (fst w2))" by simp_all
  have r2: "reachable w2" using assms(1,2,4) reachable_exec reachable_run by blast
  then have inv2: "ledger_inv w2" by (rule reachable_ledger_inv)
  then have "distinct (map t_id (taskHistory (fst w2)))"
    by (simp add: ledger_inv_def history_ids_def)
  moreover have "i \<in> set (map t_id (taskHistory (fst w2)))"
    using arch(1) by (simp add: history_ids_def)
  ultimately have one: "length (filter (\<lambda>t. t_id t = i) (taskHistory (fst w2))) = 1"
    by (rule one_record)
  have fnd: "found (getTaskStatus (fst w2) i)" using arch(1) by (simp add: found_iff)
  have run2: "run w (x # xs) = Some w2" using assms(2,4) by simp
  have part: "(j \<in> set (active_ids (fst w2))) \<noteq> (j \<in> set (history_ids (fst w2)))"
    if "j \<in> set (active_ids (fst w)) \<union> set (history_ids (fst w))" for j
  proof -
    from run_kept [OF run2 that]
    have "j \<in> set (active_ids (fst w2)) \<or> j \<in> set (history_ids (fst w2))" by simp
    moreover have "\<not> (j \<in> set (active_ids (fst w2)) \<and> j \<in> set (history_ids (fst w2)))"
      using inv2 by (auto simp: ledger_inv_def)
    ultimately show ?thesis by blast
  qed
  show ?thesis using act nohist arch one fnd part by blast
qed

lemma run_split:
  "run w (xs @ ys) = (case run w xs of None \<Rightarrow> None | Some w1 \<Rightarrow> run w1 ys)"
  by (induction xs arbitrary: w) (auto split: option.splits)

lemma run_world_after:
  assumes "run (CEOAgent, []) (xs @ ys) \<noteq> None"
  shows "run (CEOAgent, []) xs = Some (world_after xs)"
    and "run (world_after xs) ys = Some (world_after (xs @ ys))"
proof -
  from assms obtain w1 where w1: "run (CEOAgent, []) xs = Some w1"
    by (auto simp: run_split split: option.splits)
  then show a: "run (CEOAgent, []) xs = Some (world_after xs)" by (simp add: world_after_def)
  from assms obtain w2 where w2: "run (CEOAgent, []) (xs @ ys) = Some w2" by auto
  then have "world_after (xs @ ys) = w2" by (simp add: world_after_def)
  moreover from w2 have "run (world_after xs) ys = Some w2" by (simp add: run_split a)
  ultimately show "run (world_after xs) ys = Some (world_after (xs @ ys))" by simp
qed

text \<open>
  Two workers are registered and a task is submitted; its call returns; a second task
  is submitted.
\<close>

theorem task_in_exactly_one_set_witness:
  "reachable (world_after prologue)
   \<and> exec (world_after prologue) settling
       = Some (world_after (prologue @ [settling]), Some first_result)
   \<and> ar_taskId first_result = Some ''task-1000-abc''
   \<and> run (world_after (prologue @ [settling])) epilogue
       = Some (world_after ((prologue @ [settling]) @ epilogue))
   \<and> ''task-1000-abc'' \<in> set (active_ids (fst (world_after prologue)))
   \<and> ''task-1000-abc'' \<notin> set (history_ids (fst (world_after prologue)))
   \<and> ''task-1000-abc'' \<notin> set (active_ids (fst (world_after ((prologue @ [settling]) @ epilogue))))
   \<and> ''task-1000-abc'' \<in> set (history_ids (fst (world_after ((prologue @ [settling]) @ epilogue))))
   \<and> found (getTaskStatus (fst (world_after ((prologue @ [settling]) @ epilogue))) ''task-1000-abc'')"
proof -
  have ok: "run (CEOAgent, []) ((prologue @ [settling]) @ epilogue) \<noteq> None" by code_simp
  note all = run_world_after [OF ok]
  have ok1: "run (CEOAgent, []) (prologue @ [settling]) \<noteq> None" using all(1) by simp
  note one = run_world_after [OF ok1]
  have h1: "reachable (world_after prologue)" unfolding reachable_def using one(1) by blast
  have res: "map_option snd (exec (world_after prologue) settling) = Some (Some first_result)"
    by code_simp
  have h2: "exec (world_after prologue) settling
       = Some (world_after (prologue @ [settling]), Some first_result)"
    using one(2) res by (auto split: option.splits)
  have h3: "ar_taskId first_result = Some ''task-1000-abc''" by (simp add: first_result_def)
  note h4 = all(2)
  from task_in_exactly_one_set [OF h1 h2 h3 h4] h1 h2 h3 h4 show ?thesis by simp
qed

subsection \<open>Metrics\<close>

lemma foldl_elapsed:
  "foldl (\<lambda>sum t. sum + elapsed t) a ts = a + sum_list (map elapsed ts)"
  by (induction ts arbitrary: a) auto

lemma updatePerformanceMetrics_fresh:
  assumes "filter (\<lambda>t. t_status t = Completed) (taskHistory s) = []
           \<longrightarrow> averageCompletionTime (performanceMetrics s) = 0"
  shows "metrics_fresh (updatePerformanceMetrics s)"
proof (cases "filter (\<lambda>t. t_status t = Completed) (taskHistory s) = []")
  case True
  with assms show ?thesis
    by (simp add: updatePerformanceMetrics_def metrics_fresh_def history_successRate_def
        history_averageCompletionTime_def Let_def)
next
  case False
  then have "taskHistory s \<noteq> []" by auto
  with False show ?thesis
    by (simp add: updatePerformanceMetrics_def metrics_fresh_def history_successRate_def
        history_averageCompletionTime_def Let_def foldl_elapsed)
qed

lemma history_successRate_range: "0 \<le> history_successRate h \<and> history_successRate h \<le> 100"
proof (cases "h = []")
  case True
  then show ?thesis by (simp add: history_successRate_def)
next
  case False
  let ?c = "real (length (filter (\<lambda>t. t_status t = Completed) h))"
  have "?c \<le> real (length h)" by simp
  moreover have "0 < real (length h)" using False by simp
  ultimately have "?c / real (length h) \<le> 1" by (simp add: divide_le_eq_1)
  then have "?c / real (length h) * 100 \<le> 1 * 100" by (rule mult_right_mono) simp
  then have "?c / real (length h) * 100 \<le> 100" by (simp only: mult_1)
  moreover have "0 \<le> ?c / real (length h) * 100" by simp
  ultimately show ?thesis using False by (simp add: history_successRate_def)
qed

lemma metrics_fresh_inv:
  assumes "metrics_fresh s"
  shows "metrics_inv s"
proof -
  from assms have sr: "successRate (performanceMetrics s) = history_successRate (taskHistory s)"
    and av: "averageCompletionTime (performanceMetrics s)
               = history_averageCompletionTime (taskHistory s)"
    by (simp_all add: metrics_fresh_def)
  show ?thesis
    using history_successRate_range [of "taskHistory s"]
    by (simp add: metrics_inv_def sr av history_averageCompletionTime_def)
qed

text \<open>The path of \<^verbatim>\<open>assignTask\<close> on which the worker's call returns recomputes.\<close>

lemma resume_returned_fresh:
  assumes "metrics_inv s"
    and "snd (processTask_finish (current s (p_agent c)) (t_id (p_task c)) reply now) = Inr result"
  shows "metrics_fresh (fst (assignTask_resume s c reply now))"
proof -
  from assms(1) have zero: "filter (\<lambda>t. t_status t = Completed) (taskHistory s) = []
      \<longrightarrow> averageCompletionTime (performanceMetrics s) = 0"
    by (simp add: metrics_inv_def)
  show ?thesis
    using assms(2) zero
    by (auto simp: assignTask_resume_def Let_def intro!: updatePerformanceMetrics_fresh)
qed

lemma resume_metrics_inv:
  assumes "metrics_inv s"
  shows "metrics_inv (fst (assignTask_resume s c reply now))"
proof (cases "snd (processTask_finish (current s (p_agent c)) (t_id (p_task c)) reply now)")
  case (Inr result)
  from resume_returned_fresh [OF assms Inr] show ?thesis by (rule metrics_fresh_inv)
next
  case (Inl err)
  with assms show ?thesis
    by (simp add: assignTask_resume_def Let_def metrics_inv_def)
qed

lemma exec_metrics_inv:
  assumes "metrics_inv (fst w)" and "exec w x = Some (w1, r)"
  shows "metrics_inv (fst w1)"
proof -
  obtain s ps where w: "w = (s, ps)" by (cases w)
  show ?thesis
  proof (cases x)
    case (Register a)
    with assms show ?thesis by (auto simp: w metrics_inv_def)
  next
    case (Submit e dsc p rs)
    obtain s1 b where beg: "assignTask_begin s e dsc p rs = (s1, b)"
      by (cases "assignTask_begin s e dsc p rs")
    from beg show ?thesis
    proof (cases rule: begin_cases)
      case (rejects err)
      with assms Submit beg show ?thesis by (auto simp: w split: if_splits)
    next
      case (awaits c)
      with assms Submit beg have "fst w1 = s1" by (auto simp: w split: if_splits)
      with assms(1) awaits show ?thesis by (simp add: w metrics_inv_def)
    qed
  next
    case (Settle i reply now)
    with assms(2) have "fst w1 = fst (assignTask_resume s (ps ! i) reply now)"
      by (auto simp: w split: if_splits prod.splits)
    with assms(1) resume_metrics_inv [of s "ps ! i" reply now] show ?thesis by (simp add: w)
  next
    case (Aggregate ids kind now reply later)
    with assms show ?thesis by (auto simp: w metrics_inv_def)
  qed
qed

lemma run_metrics_inv:
  "metrics_inv (fst w) \<Longrightarrow> run w xs = Some w1 \<Longrightarrow> metrics_inv (fst w1)"
proof (induction xs arbitrary: w)
  case Nil
  then show ?case by simp
next
  case (Cons x xs)
  from Cons.prems(2) obtain w' r where st: "exec w x = Some (w', r)" "run w' xs = Some w1"
    by (auto split: option.splits)
  from exec_metrics_inv [OF Cons.prems(1) st(1)] Cons.IH [OF _ st(2)] show ?case by blast
qed

lemma reachable_metrics_inv:
  assumes "reachable w"
  shows "metrics_inv (fst w)"
proof -
  from assms obtain xs where r: "run (CEOAgent, []) xs = Some w" by (auto simp: reachable_def)
  have "metrics_inv (fst (CEOAgent, []))" by (simp add: metrics_inv_def CEOAgent_def)
  then show ?thesis using r by (rule run_metrics_inv)
qed

text \<open>
  C4. The path on which the worker's call throws does not recompute: after one
  completed task and one task whose worker threw, the history is half completed, and
  the stored success rate is still 100.
\<close>

theorem metrics_stale_after_throw:
  "map t_status (taskHistory after_success) = [Completed]
   \<and> metrics_fresh after_success
   \<and> map t_status (taskHistory after_throw) = [Completed, Failed]
   \<and> successRate (performanceMetrics after_throw) = 100
   \<and> history_successRate (taskHistory after_throw) = 50
   \<and> \<not> metrics_fresh after_throw"
  by code_simp

subsection \<open>Aggregation\<close>










end
